theory Spec2Isabelle
  imports Main "HOL-Library.Multiset"
begin

section \<open>Values, strings and errors\<close>

text \<open>
  The programs \<^verbatim>\<open>seller.py\<close> (Ozon) and \<^verbatim>\<open>market.py\<close> (Yandex Market) work on
  rows of a spreadsheet read by pandas. A row is a dictionary whose cells are Python
  strings, Python integers or absent (\<^verbatim>\<open>watch.get(key)\<close> is then \<^verbatim>\<open>None\<close>).
  A Python \<^verbatim>\<open>str\<close> is a \<open>string\<close> holding its UTF-8 bytes: every character the
  code tests (the digits, the dot, the sign, the underscore) is ASCII, and no byte of a
  longer UTF-8 sequence is below 128, so a test per byte is a test per character. Only
  \<^verbatim>\<open>int\<close> looks at characters beyond ASCII, and decodes them.
  Floating-point cells are outside the model.
\<close>

datatype pyval = PStr string | PInt int | PNone

datatype error = ValueError | TypeError | AttributeError | IndexError

type_synonym watch = "string \<rightharpoonup> pyval"

text \<open>The three column titles of the feed the code reads, in UTF-8.\<close>

definition Kod :: string where
  "Kod = [CHR 0xD0, CHR 0x9A, CHR 0xD0, CHR 0xBE, CHR 0xD0, CHR 0xB4]"

definition Kolichestvo :: string where
  "Kolichestvo = [CHR 0xD0, CHR 0x9A, CHR 0xD0, CHR 0xBE, CHR 0xD0, CHR 0xBB, CHR 0xD0, CHR 0xB8,
     CHR 0xD1, CHR 0x87, CHR 0xD0, CHR 0xB5, CHR 0xD1, CHR 0x81, CHR 0xD1, CHR 0x82,
     CHR 0xD0, CHR 0xB2, CHR 0xD0, CHR 0xBE]"

definition Tsena :: string where
  "Tsena = [CHR 0xD0, CHR 0xA6, CHR 0xD0, CHR 0xB5, CHR 0xD0, CHR 0xBD, CHR 0xD0, CHR 0xB0]"

text \<open>\<^verbatim>\<open>dict.get(key)\<close>: the value, or \<^verbatim>\<open>None\<close> for a missing key.\<close>

definition get :: "watch \<Rightarrow> string \<Rightarrow> pyval" where
  "get w k = (case w k of None \<Rightarrow> PNone | Some v \<Rightarrow> v)"

subsection \<open>The builtin \<^verbatim>\<open>str\<close>\<close>

definition digit_char :: "nat \<Rightarrow> char" where
  "digit_char d = ''0123456789'' ! d"

function str_nat :: "nat \<Rightarrow> string" where
  "str_nat n = (if n < 10 then [digit_char n] else str_nat (n div 10) @ [digit_char (n mod 10)])"
  by pat_completeness auto
termination
  by (relation "measure (\<lambda>n. n)") auto

definition py_str :: "pyval \<Rightarrow> string" where
  "py_str v = (case v of
     PStr s \<Rightarrow> s
   | PInt i \<Rightarrow> (if i < 0 then CHR ''-'' # str_nat (nat (- i)) else str_nat (nat i))
   | PNone \<Rightarrow> ''None'')"

subsection \<open>The builtin \<^verbatim>\<open>int\<close>\<close>

text \<open>
  \<^verbatim>\<open>int(x)\<close> returns an integer unchanged and raises \<^verbatim>\<open>TypeError\<close> on \<^verbatim>\<open>None\<close>.
  A string is read in base 10 the way CPython does it, in two steps.

  First (\<^verbatim>\<open>_PyUnicode_TransformDecimalAndSpaceToASCII\<close>) a string that is not all ASCII
  is rewritten character by character: a character below 127 stays, a Unicode whitespace
  character becomes a blank, a Unicode decimal digit becomes the ASCII digit of its value,
  and at any other character the result ends with a question mark. The whitespace
  characters from 127 on and the zeros of the decimal digits (every script has its ten
  digits in a row) are the tables of Unicode 14.0, which CPython 3.11 carries. A string
  that is all ASCII is taken as it is.

  Then (\<^verbatim>\<open>PyLong_FromString\<close>) blanks in the sense of C (tab, line feed, vertical tab,
  form feed, carriage return, space) are dropped at both ends, one sign may lead, and what
  remains must be digits, possibly grouped by single underscores between two digits, and
  no more than 4300 digits, the interpreter's default limit. Anything else raises
  \<^verbatim>\<open>ValueError\<close>.

  The bytes of a Python string are well-formed UTF-8 (a lone surrogate, which a Python
  string may hold, taken as its three bytes); \<open>utf8_head\<close> reads the first character of
  such a byte list and its length in bytes, and refuses any other byte list.
\<close>

definition is_digit :: "char \<Rightarrow> bool" where
  "is_digit c \<longleftrightarrow> c \<in> set ''0123456789''"

definition digit_val :: "char \<Rightarrow> nat" where
  "digit_val c = of_char c - 48"

definition is_space :: "char \<Rightarrow> bool" where
  "is_space c \<longleftrightarrow> c \<in> set [CHR 0x09, CHR 0x0A, CHR 0x0B, CHR 0x0C, CHR 0x0D, CHR 0x20]"

definition is_cont :: "char \<Rightarrow> bool" where
  "is_cont c \<longleftrightarrow> 0x80 \<le> (of_char c :: nat) \<and> (of_char c :: nat) < 0xC0"

definition utf8_tail :: "nat \<Rightarrow> string \<Rightarrow> nat" where
  "utf8_tail lead cs = foldl (\<lambda>a c. a * 64 + (of_char c - 0x80)) lead cs"

definition utf8_head :: "string \<Rightarrow> (nat \<times> nat) option" where
  "utf8_head s = (case s of
     [] \<Rightarrow> None
   | c # cs \<Rightarrow>
       (let b = of_char c :: nat;
            n = (if b < 0x80 then 1 else if b < 0xC0 then 0 else if b < 0xE0 then 2
                 else if b < 0xF0 then 3 else if b < 0xF8 then 4 else 0);
            ch = utf8_tail (if n = 1 then b else if n = 2 then b - 0xC0
                            else if n = 3 then b - 0xE0 else b - 0xF0) (take (n - 1) cs)
        in if n = 0 then None
           else if length cs < n - 1 then None
           else if \<not> list_all is_cont (take (n - 1) cs) then None
           else if ch < [0, 0, 0x80, 0x800, 0x10000] ! n then None
           else if 0x10FFFF < ch then None
           else Some (ch, n)))"

definition unicode_spaces :: "nat list" where
  "unicode_spaces = [0x85, 0xA0, 0x1680, 0x2000, 0x2001, 0x2002, 0x2003, 0x2004, 0x2005, 0x2006,
     0x2007, 0x2008, 0x2009, 0x200A, 0x2028, 0x2029, 0x202F, 0x205F, 0x3000]"

definition unicode_zeros :: "nat list" where
  "unicode_zeros = [0x660, 0x6F0, 0x7C0, 0x966, 0x9E6, 0xA66, 0xAE6, 0xB66, 0xBE6, 0xC66, 0xCE6,
     0xD66, 0xDE6, 0xE50, 0xED0, 0xF20, 0x1040, 0x1090, 0x17E0, 0x1810, 0x1946, 0x19D0, 0x1A80,
     0x1A90, 0x1B50, 0x1BB0, 0x1C40, 0x1C50, 0xA620, 0xA8D0, 0xA900, 0xA9D0, 0xA9F0, 0xAA50,
     0xABF0, 0xFF10, 0x104A0, 0x10D30, 0x11066, 0x110F0, 0x11136, 0x111D0, 0x112F0, 0x11450,
     0x114D0, 0x11650, 0x116C0, 0x11730, 0x118E0, 0x11950, 0x11C50, 0x11D50, 0x11DA0, 0x16A60,
     0x16AC0, 0x16B50, 0x1D7CE, 0x1D7D8, 0x1D7E2, 0x1D7EC, 0x1D7F6, 0x1E140, 0x1E2F0, 0x1E950,
     0x1FBF0]"

definition unicode_decimal :: "nat \<Rightarrow> nat option" where
  "unicode_decimal ch = (case filter (\<lambda>z. z \<le> ch \<and> ch < z + 10) unicode_zeros of
     [] \<Rightarrow> None
   | z # zs \<Rightarrow> Some (ch - z))"

fun transform :: "string \<Rightarrow> string" where
  "transform [] = []"
| "transform (c # cs) =
     (case utf8_head (c # cs) of
        None \<Rightarrow> ''?''
      | Some (ch, n) \<Rightarrow>
          if ch < 127 then c # transform (drop (n - 1) cs)
          else if ch \<in> set unicode_spaces then CHR '' '' # transform (drop (n - 1) cs)
          else (case unicode_decimal ch of
                  None \<Rightarrow> ''?''
                | Some d \<Rightarrow> digit_char d # transform (drop (n - 1) cs)))"

definition strip :: "string \<Rightarrow> string" where
  "strip s = rev (dropWhile is_space (rev (dropWhile is_space s)))"

fun digits_from :: "nat \<Rightarrow> string \<Rightarrow> nat option" where
  "digits_from acc [] = Some acc"
| "digits_from acc [c] = (if is_digit c then Some (10 * acc + digit_val c) else None)"
| "digits_from acc (c # d # cs) =
     (if is_digit c then digits_from (10 * acc + digit_val c) (d # cs)
      else if c = CHR ''_'' \<and> is_digit d then digits_from acc (d # cs)
      else None)"

definition nat_of_digits :: "string \<Rightarrow> nat option" where
  "nat_of_digits s = (case s of
     [] \<Rightarrow> None
   | c # cs \<Rightarrow> (if is_digit c then digits_from 0 s else None))"

definition max_str_digits :: nat where
  "max_str_digits = 4300"

definition long_from_string :: "string \<Rightarrow> error + int" where
  "long_from_string s =
     (let t = strip s;
          (neg, u) = (case t of
             [] \<Rightarrow> (False, t)
           | c # cs \<Rightarrow> (if c = CHR ''-'' then (True, cs)
                        else if c = CHR ''+'' then (False, cs) else (False, t)))
      in case nat_of_digits u of
           None \<Rightarrow> Inl ValueError
         | Some n \<Rightarrow>
             if max_str_digits < length (filter is_digit u) then Inl ValueError
             else Inr (if neg then - int n else int n))"

definition int_of_str :: "string \<Rightarrow> error + int" where
  "int_of_str s =
     long_from_string (if list_all (\<lambda>c. (of_char c :: nat) < 128) s then s else transform s)"

definition py_int :: "pyval \<Rightarrow> error + int" where
  "py_int v = (case v of
     PStr s \<Rightarrow> int_of_str s
   | PInt i \<Rightarrow> Inr i
   | PNone \<Rightarrow> Inl TypeError)"

section \<open>Helpers of \<^verbatim>\<open>seller.py\<close>\<close>

subsection \<open>\<^verbatim>\<open>price_conversion\<close>\<close>

text \<open>
  \<^verbatim>\<open>return re.sub("[^0-9]", "", price.split(".")[0])\<close>
  \<^verbatim>\<open>str.split(sep)\<close> cuts at every separator and always returns at least one piece;
  the model keeps the index \<^verbatim>\<open>[0]\<close> as a case on the list. A value that is not a string
  has no \<^verbatim>\<open>split\<close>: \<^verbatim>\<open>AttributeError\<close>.
\<close>

fun py_split :: "char \<Rightarrow> string \<Rightarrow> string list" where
  "py_split sep [] = [[]]"
| "py_split sep (c # cs) =
     (if c = sep then [] # py_split sep cs
      else (case py_split sep cs of
              [] \<Rightarrow> [[c]]
            | p # ps \<Rightarrow> (c # p) # ps))"

definition re_sub_non_digits :: "string \<Rightarrow> string" where
  "re_sub_non_digits s = filter is_digit s"

definition price_conversion :: "pyval \<Rightarrow> error + string" where
  "price_conversion price = (case price of
     PStr s \<Rightarrow> (case py_split CHR ''.'' s of
                  [] \<Rightarrow> Inl IndexError
                | p # ps \<Rightarrow> Inr (re_sub_non_digits p))
   | _ \<Rightarrow> Inl AttributeError)"

subsection \<open>\<^verbatim>\<open>divide\<close>\<close>

text \<open>
  \<^verbatim>\<open>for i in range(0, len(lst), n): yield lst[i : i + n]\<close>
  Every caller collects the generator with \<^verbatim>\<open>list(...)\<close>, so the model returns the list
  of the chunks yielded. \<^verbatim>\<open>range\<close> raises \<^verbatim>\<open>ValueError\<close> for a step of zero and is
  empty for a negative step.
\<close>

function divide_loop :: "'a list \<Rightarrow> nat \<Rightarrow> nat \<Rightarrow> 'a list list" where
  "divide_loop lst n i =
     (if 0 < n \<and> i < length lst then take n (drop i lst) # divide_loop lst n (i + n) else [])"
  by pat_completeness auto
termination
  by (relation "measure (\<lambda>(lst, n, i). length lst - i)") auto

definition divide :: "'a list \<Rightarrow> int \<Rightarrow> error + 'a list list" where
  "divide lst n =
     (if n = 0 then Inl ValueError
      else if n < 0 then Inr []
      else Inr (divide_loop lst (nat n) 0))"

section \<open>Reconciliation in \<^verbatim>\<open>seller.py\<close> (Ozon)\<close>

text \<open>
  The dictionaries the code builds are records. A stock entry is
  \<^verbatim>\<open>{"offer_id": ..., "stock": ...}\<close>; a price entry has the keys
  \<^verbatim>\<open>auto_action_enabled\<close>, \<^verbatim>\<open>currency_code\<close>, \<^verbatim>\<open>offer_id\<close> (here
  \<open>price_offer_id\<close>), \<^verbatim>\<open>old_price\<close> and \<^verbatim>\<open>price\<close>.
\<close>

record ozon_stock =
  offer_id :: string
  stock :: int

record ozon_price =
  auto_action_enabled :: string
  currency_code :: string
  price_offer_id :: string
  old_price :: string
  price :: string

text \<open>
  \<^verbatim>\<open>offer_ids\<close> is the list that \<^verbatim>\<open>get_offer_ids\<close> returns (the docstring calls it a
  set; a Python set is a list without repetition here, in its iteration order, which
  removing an element does not change). The first loop of \<^verbatim>\<open>create_stocks\<close> removes
  each matched identifier from it, so the loop threads the list as state; the entries
  appended to \<^verbatim>\<open>stocks\<close> come out in the order of the appends.
  \<^verbatim>\<open>offer_ids.remove(x)\<close> deletes the first \<^verbatim>\<open>x\<close> and runs only after
  \<^verbatim>\<open>x in offer_ids\<close> held, so it cannot raise.
\<close>

fun seller_stocks_loop :: "watch list \<Rightarrow> string list \<Rightarrow> error + (ozon_stock list \<times> string list)" where
  "seller_stocks_loop [] offer_ids = Inr ([], offer_ids)"
| "seller_stocks_loop (watch # rest) offer_ids =
     (if py_str (get watch Kod) \<in> set offer_ids then
        (let count = py_str (get watch Kolichestvo) in
         case (if count = ''>10'' then Inr 100
               else if count = ''1'' then Inr 0
               else py_int (get watch Kolichestvo)) of
           Inl e \<Rightarrow> Inl e
         | Inr stock' \<Rightarrow>
             (case seller_stocks_loop rest (remove1 (py_str (get watch Kod)) offer_ids) of
                Inl e \<Rightarrow> Inl e
              | Inr (stocks, offer_ids') \<Rightarrow>
                  Inr (\<lparr>offer_id = py_str (get watch Kod), stock = stock'\<rparr> # stocks, offer_ids')))
      else seller_stocks_loop rest offer_ids)"

text \<open>
  \<^verbatim>\<open>create_stocks\<close> returns the list of stock entries; the second component is the
  caller's \<^verbatim>\<open>offer_ids\<close> as the call leaves it.
\<close>

definition seller_create_stocks :: "watch list \<Rightarrow> string list \<Rightarrow> error + (ozon_stock list \<times> string list)" where
  "seller_create_stocks watch_remnants offer_ids =
     (case seller_stocks_loop watch_remnants offer_ids of
        Inl e \<Rightarrow> Inl e
      | Inr (stocks, offer_ids') \<Rightarrow>
          Inr (stocks @ map (\<lambda>offer_id. \<lparr>offer_id = offer_id, stock = 0\<rparr>) offer_ids', offer_ids'))"

fun seller_create_prices :: "watch list \<Rightarrow> string list \<Rightarrow> error + ozon_price list" where
  "seller_create_prices [] offer_ids = Inr []"
| "seller_create_prices (watch # rest) offer_ids =
     (if py_str (get watch Kod) \<in> set offer_ids then
        (case price_conversion (get watch Tsena) of
           Inl e \<Rightarrow> Inl e
         | Inr p \<Rightarrow>
             (case seller_create_prices rest offer_ids of
                Inl e \<Rightarrow> Inl e
              | Inr prices \<Rightarrow>
                  Inr (\<lparr>auto_action_enabled = ''UNKNOWN'', currency_code = ''RUB'',
                        price_offer_id = py_str (get watch Kod), old_price = ''0'',
                        price = p\<rparr> # prices)))
      else seller_create_prices rest offer_ids)"

section \<open>Reconciliation in \<^verbatim>\<open>market.py\<close> (Yandex Market)\<close>

text \<open>
  A stock entry is \<^verbatim>\<open>{"sku", "warehouseId", "items": [{"count", "type", "updatedAt"}]}\<close>,
  a price entry \<^verbatim>\<open>{"id", "price": {"value", "currencyId"}}\<close>. The time stamp
  \<^verbatim>\<open>date\<close> is read from the clock once, before the loop: a parameter here.
\<close>

record market_item =
  item_count :: int
  item_type :: string
  updatedAt :: string

record market_stock =
  sku :: string
  warehouseId :: string
  items :: "market_item list"

record market_price_body =
  price_value :: int
  currencyId :: string

record market_price =
  price_id :: string
  price_body :: market_price_body

fun market_stocks_loop ::
  "string \<Rightarrow> watch list \<Rightarrow> string list \<Rightarrow> string \<Rightarrow> error + (market_stock list \<times> string list)" where
  "market_stocks_loop date [] offer_ids warehouse_id = Inr ([], offer_ids)"
| "market_stocks_loop date (watch # rest) offer_ids warehouse_id =
     (if py_str (get watch Kod) \<in> set offer_ids then
        (let count = py_str (get watch Kolichestvo) in
         case (if count = ''>10'' then Inr 100
               else if count = ''1'' then Inr 0
               else py_int (get watch Kolichestvo)) of
           Inl e \<Rightarrow> Inl e
         | Inr stock' \<Rightarrow>
             (case market_stocks_loop date rest (remove1 (py_str (get watch Kod)) offer_ids)
                     warehouse_id of
                Inl e \<Rightarrow> Inl e
              | Inr (stocks, offer_ids') \<Rightarrow>
                  Inr (\<lparr>sku = py_str (get watch Kod), warehouseId = warehouse_id,
                        items = [\<lparr>item_count = stock', item_type = ''FIT'', updatedAt = date\<rparr>]\<rparr>
                       # stocks, offer_ids')))
      else market_stocks_loop date rest offer_ids warehouse_id)"

definition market_create_stocks ::
  "string \<Rightarrow> watch list \<Rightarrow> string list \<Rightarrow> string \<Rightarrow> error + (market_stock list \<times> string list)" where
  "market_create_stocks date watch_remnants offer_ids warehouse_id =
     (case market_stocks_loop date watch_remnants offer_ids warehouse_id of
        Inl e \<Rightarrow> Inl e
      | Inr (stocks, offer_ids') \<Rightarrow>
          Inr (stocks @ map (\<lambda>offer_id.
                 \<lparr>sku = offer_id, warehouseId = warehouse_id,
                  items = [\<lparr>item_count = 0, item_type = ''FIT'', updatedAt = date\<rparr>]\<rparr>) offer_ids',
               offer_ids'))"

fun market_create_prices :: "watch list \<Rightarrow> string list \<Rightarrow> error + market_price list" where
  "market_create_prices [] offer_ids = Inr []"
| "market_create_prices (watch # rest) offer_ids =
     (if py_str (get watch Kod) \<in> set offer_ids then
        (case price_conversion (get watch Tsena) of
           Inl e \<Rightarrow> Inl e
         | Inr p \<Rightarrow>
             (case int_of_str p of
                Inl e \<Rightarrow> Inl e
              | Inr v \<Rightarrow>
                  (case market_create_prices rest offer_ids of
                     Inl e \<Rightarrow> Inl e
                   | Inr prices \<Rightarrow>
                       Inr (\<lparr>price_id = py_str (get watch Kod),
                             price_body = \<lparr>price_value = v, currencyId = ''RUR''\<rparr>\<rparr> # prices))))
      else market_create_prices rest offer_ids)"

section \<open>Uploading and the entry points\<close>

text \<open>
  The network is outside the model. What \<^verbatim>\<open>get_offer_ids\<close> and
  \<^verbatim>\<open>download_stock\<close> return are parameters, and each call of a write endpoint
  (\<^verbatim>\<open>update_stocks\<close>, \<^verbatim>\<open>update_price\<close>) is recorded by its payload, in order,
  every call taken to succeed. An upload function returns the payloads it sent and the
  value the Python function returns. The functions are declared \<^verbatim>\<open>async\<close> and hold no
  \<^verbatim>\<open>await\<close>: the model is what their body does once it runs.
\<close>

definition seller_upload_prices ::
  "watch list \<Rightarrow> string list \<Rightarrow> error + (ozon_price list list \<times> ozon_price list)" where
  "seller_upload_prices watch_remnants offer_ids =
     (case seller_create_prices watch_remnants offer_ids of
        Inl e \<Rightarrow> Inl e
      | Inr prices \<Rightarrow>
          (case divide prices 1000 of
             Inl e \<Rightarrow> Inl e
           | Inr sent \<Rightarrow> Inr (sent, prices)))"

definition seller_upload_stocks ::
  "watch list \<Rightarrow> string list \<Rightarrow> error + (ozon_stock list list \<times> (ozon_stock list \<times> ozon_stock list))" where
  "seller_upload_stocks watch_remnants offer_ids =
     (case seller_create_stocks watch_remnants offer_ids of
        Inl e \<Rightarrow> Inl e
      | Inr (stocks, offer_ids') \<Rightarrow>
          (case divide stocks 100 of
             Inl e \<Rightarrow> Inl e
           | Inr sent \<Rightarrow> Inr (sent, (filter (\<lambda>s. stock s \<noteq> 0) stocks, stocks))))"

definition market_upload_prices ::
  "watch list \<Rightarrow> string list \<Rightarrow> error + (market_price list list \<times> market_price list)" where
  "market_upload_prices watch_remnants offer_ids =
     (case market_create_prices watch_remnants offer_ids of
        Inl e \<Rightarrow> Inl e
      | Inr prices \<Rightarrow>
          (case divide prices 500 of
             Inl e \<Rightarrow> Inl e
           | Inr sent \<Rightarrow> Inr (sent, prices)))"

text \<open>\<^verbatim>\<open>stock.get("items")[0].get("count") != 0\<close>, for every entry in turn.\<close>

fun market_not_empty :: "market_stock list \<Rightarrow> error + market_stock list" where
  "market_not_empty [] = Inr []"
| "market_not_empty (s # rest) =
     (case items s of
        [] \<Rightarrow> Inl IndexError
      | it # others \<Rightarrow>
          (case market_not_empty rest of
             Inl e \<Rightarrow> Inl e
           | Inr kept \<Rightarrow> Inr (if item_count it \<noteq> 0 then s # kept else kept)))"

definition market_upload_stocks ::
  "string \<Rightarrow> watch list \<Rightarrow> string list \<Rightarrow> string
     \<Rightarrow> error + (market_stock list list \<times> (market_stock list \<times> market_stock list))" where
  "market_upload_stocks date watch_remnants offer_ids warehouse_id =
     (case market_create_stocks date watch_remnants offer_ids warehouse_id of
        Inl e \<Rightarrow> Inl e
      | Inr (stocks, offer_ids') \<Rightarrow>
          (case divide stocks 2000 of
             Inl e \<Rightarrow> Inl e
           | Inr sent \<Rightarrow>
               (case market_not_empty stocks of
                  Inl e \<Rightarrow> Inl e
                | Inr not_empty \<Rightarrow> Inr (sent, (not_empty, stocks)))))"

text \<open>
  A run of \<^verbatim>\<open>main\<close>: the payloads sent to the stock endpoint, those sent to the price
  endpoint, and the exception the handler printed, if any.
\<close>

record ('s, 'p) run =
  stock_calls :: "'s list list"
  price_calls :: "'p list list"
  printed :: "error option"

text \<open>
  \<^verbatim>\<open>main\<close> of \<^verbatim>\<open>seller.py\<close> passes the same list object \<^verbatim>\<open>offer_ids\<close> to
  \<^verbatim>\<open>create_stocks\<close> and then to \<^verbatim>\<open>create_prices\<close>: the second call sees the list
  as the first one left it.
\<close>

definition seller_main :: "string list \<Rightarrow> watch list \<Rightarrow> (ozon_stock, ozon_price) run" where
  "seller_main offer_ids watch_remnants =
     (case seller_create_stocks watch_remnants offer_ids of
        Inl e \<Rightarrow> \<lparr>stock_calls = [], price_calls = [], printed = Some e\<rparr>
      | Inr (stocks, offer_ids') \<Rightarrow>
          (case divide stocks 100 of
             Inl e \<Rightarrow> \<lparr>stock_calls = [], price_calls = [], printed = Some e\<rparr>
           | Inr some_stocks \<Rightarrow>
               (case seller_create_prices watch_remnants offer_ids' of
                  Inl e \<Rightarrow> \<lparr>stock_calls = some_stocks, price_calls = [], printed = Some e\<rparr>
                | Inr prices \<Rightarrow>
                    (case divide prices 900 of
                       Inl e \<Rightarrow> \<lparr>stock_calls = some_stocks, price_calls = [], printed = Some e\<rparr>
                     | Inr some_prices \<Rightarrow>
                         \<lparr>stock_calls = some_stocks, price_calls = some_prices,
                          printed = None\<rparr>))))"

text \<open>
  \<^verbatim>\<open>main\<close> of \<^verbatim>\<open>market.py\<close> handles the FBS account, then the DBS account. It calls
  the coroutine function \<^verbatim>\<open>upload_prices\<close> without awaiting the result, so the body of
  \<^verbatim>\<open>upload_prices\<close> does not run: no price payload is sent. Each account has its own
  fetched identifier list and its own reading of the clock.
\<close>

definition market_main ::
  "string \<Rightarrow> string \<Rightarrow> string list \<Rightarrow> string list \<Rightarrow> watch list \<Rightarrow> string \<Rightarrow> string
     \<Rightarrow> (market_stock, market_price) run" where
  "market_main date_fbs date_dbs offer_ids_fbs offer_ids_dbs watch_remnants
      warehouse_fbs_id warehouse_dbs_id =
     (case market_create_stocks date_fbs watch_remnants offer_ids_fbs warehouse_fbs_id of
        Inl e \<Rightarrow> \<lparr>stock_calls = [], price_calls = [], printed = Some e\<rparr>
      | Inr (stocks_fbs, ids_fbs') \<Rightarrow>
          (case divide stocks_fbs 2000 of
             Inl e \<Rightarrow> \<lparr>stock_calls = [], price_calls = [], printed = Some e\<rparr>
           | Inr sent_fbs \<Rightarrow>
               (case market_create_stocks date_dbs watch_remnants offer_ids_dbs warehouse_dbs_id of
                  Inl e \<Rightarrow> \<lparr>stock_calls = sent_fbs, price_calls = [], printed = Some e\<rparr>
                | Inr (stocks_dbs, ids_dbs') \<Rightarrow>
                    (case divide stocks_dbs 2000 of
                       Inl e \<Rightarrow> \<lparr>stock_calls = sent_fbs, price_calls = [], printed = Some e\<rparr>
                     | Inr sent_dbs \<Rightarrow>
                         \<lparr>stock_calls = sent_fbs @ sent_dbs, price_calls = [],
                          printed = None\<rparr>))))"

section \<open>Reconciliation, seen once for both marketplaces\<close>

text \<open>
  The two \<^verbatim>\<open>create_stocks\<close> differ only in the dictionary they build for an entry.
  What they share is written once here, for the proofs: the code of a row, the rule that
  turns its quantity into a count (the \<^verbatim>\<open>if\<close>/\<^verbatim>\<open>elif\<close>/\<^verbatim>\<open>else\<close> of both
  functions), the first loop as a list of pairs of identifier and count, and the whole
  function as such a list.
\<close>

abbreviation code_of :: "watch \<Rightarrow> string" where
  "code_of w \<equiv> py_str (get w Kod)"

definition stock_rule :: "watch \<Rightarrow> error + int" where
  "stock_rule watch =
     (let count = py_str (get watch Kolichestvo) in
      if count = ''>10'' then Inr 100
      else if count = ''1'' then Inr 0
      else py_int (get watch Kolichestvo))"

fun matched_counts :: "watch list \<Rightarrow> string list \<Rightarrow> error + ((string \<times> int) list \<times> string list)" where
  "matched_counts [] offer_ids = Inr ([], offer_ids)"
| "matched_counts (watch # rest) offer_ids =
     (if code_of watch \<in> set offer_ids then
        (case stock_rule watch of
           Inl e \<Rightarrow> Inl e
         | Inr n \<Rightarrow>
             (case matched_counts rest (remove1 (code_of watch) offer_ids) of
                Inl e \<Rightarrow> Inl e
              | Inr (ps, offer_ids') \<Rightarrow> Inr ((code_of watch, n) # ps, offer_ids')))
      else matched_counts rest offer_ids)"

definition reconciled :: "watch list \<Rightarrow> string list \<Rightarrow> error + ((string \<times> int) list \<times> string list)" where
  "reconciled feed ids =
     (case matched_counts feed ids of
        Inl e \<Rightarrow> Inl e
      | Inr (ps, ids') \<Rightarrow> Inr (ps @ map (\<lambda>i. (i, 0)) ids', ids'))"

text \<open>A row of the feed with the three cells the code reads, for the examples.\<close>

definition row :: "pyval \<Rightarrow> pyval \<Rightarrow> pyval \<Rightarrow> watch" where
  "row c q p = [Kod \<mapsto> c, Kolichestvo \<mapsto> q, Tsena \<mapsto> p]"

section \<open>Properties of \<^verbatim>\<open>divide\<close>\<close>

declare divide_loop.simps [simp del]

lemma divide_loop_concat: "0 < n \<Longrightarrow> concat (divide_loop lst n i) = drop i lst"
proof (induction lst n i rule: divide_loop.induct)
  case (1 lst n i)
  show ?case
  proof (cases "i < length lst")
    case True
    with 1 have "concat (divide_loop lst n (i + n)) = drop (i + n) lst" by simp
    moreover have "take n (drop i lst) @ drop (i + n) lst = drop i lst"
      by (metis add.commute append_take_drop_id drop_drop)
    ultimately show ?thesis using True 1(2) by (subst divide_loop.simps) simp
  next
    case False
    then show ?thesis by (subst divide_loop.simps) simp
  qed
qed

lemma divide_loop_length:
  "0 < n \<Longrightarrow> length (divide_loop lst n i) = (length lst - i + n - 1) div n"
proof (induction lst n i rule: divide_loop.induct)
  case (1 lst n i)
  show ?case
  proof (cases "i < length lst")
    case True
    with 1 have IH: "length (divide_loop lst n (i + n)) = (length lst - (i + n) + n - 1) div n"
      by simp
    have "(length lst - i + n - 1) div n = Suc ((length lst - (i + n) + n - 1) div n)"
    proof (cases "i + n \<le> length lst")
      case True
      then have a: "length lst - i + n - 1 = (length lst - (i + n) + n - 1) + n"
        using 1(2) by linarith
      have "(length lst - (i + n) + n - 1 + n) div n = (length lst - (i + n) + n - 1) div n + 1"
        using 1(2) by (intro div_add_self2) simp
      then show ?thesis unfolding a by simp
    next
      case False
      then have a: "length lst - (i + n) + n - 1 = n - 1" by simp
      have b: "length lst - i + n - 1 = (length lst - i - 1) + n" using True by linarith
      have c: "length lst - i - 1 < n" using False True by linarith
      have "(n - 1) div n = 0" using 1(2) by simp
      moreover have "(length lst - i - 1 + n) div n = (length lst - i - 1) div n + 1"
        using 1(2) by (intro div_add_self2) simp
      moreover have "(length lst - i - 1) div n = 0" using c by simp
      ultimately show ?thesis unfolding a b by simp
    qed
    then show ?thesis using True 1(2) IH by (subst divide_loop.simps) simp
  next
    case False
    then have "length lst - i + n - 1 = n - 1" by simp
    then show ?thesis using False 1(2) by (subst divide_loop.simps) simp
  qed
qed

lemma divide_loop_nth:
  "k < length (divide_loop lst n i) \<Longrightarrow> divide_loop lst n i ! k = take n (drop (i + k * n) lst)"
proof (induction lst n i arbitrary: k rule: divide_loop.induct)
  case (1 lst n i)
  from 1(2) have c: "0 < n \<and> i < length lst"
    by (subst (asm) divide_loop.simps) (simp split: if_splits)
  then have eq: "divide_loop lst n i = take n (drop i lst) # divide_loop lst n (i + n)"
    by (subst divide_loop.simps) simp
  show ?case
  proof (cases k)
    case 0
    then show ?thesis using eq by simp
  next
    case (Suc j)
    with 1(2) eq have "j < length (divide_loop lst n (i + n))" by simp
    with 1(1) c have "divide_loop lst n (i + n) ! j = take n (drop (i + n + j * n) lst)" by simp
    then show ?thesis using eq Suc by (simp add: add.assoc)
  qed
qed

lemma divide_loop_chunk_bounds:
  "c \<in> set (divide_loop lst n i) \<Longrightarrow> 1 \<le> length c \<and> length c \<le> n"
proof (induction lst n i rule: divide_loop.induct)
  case (1 lst n i)
  from 1(2) have c: "0 < n \<and> i < length lst"
    by (subst (asm) divide_loop.simps) (simp split: if_splits)
  then have eq: "divide_loop lst n i = take n (drop i lst) # divide_loop lst n (i + n)"
    by (subst divide_loop.simps) simp
  from 1(2) eq consider "c = take n (drop i lst)" | "c \<in> set (divide_loop lst n (i + n))" by auto
  then show ?case
  proof cases
    case 1
    then show ?thesis using c by (simp add: min_def) linarith
  next
    case 2
    then show ?thesis using 1(1) c by simp
  qed
qed

lemma divide_loop_full:
  assumes "Suc k < length (divide_loop lst n i)"
  shows "length (divide_loop lst n i ! k) = n"
proof -
  have n: "0 < n" using assms by (subst (asm) divide_loop.simps) (simp split: if_splits)
  have k: "k < length (divide_loop lst n i)" using assms by simp
  have "Suc k < (length lst - i + n - 1) div n" using assms n by (simp add: divide_loop_length)
  then have "Suc (Suc k) \<le> (length lst - i + n - 1) div n" by simp
  then have "Suc (Suc k) * n \<le> length lst - i + n - 1"
    using n by (simp add: less_eq_div_iff_mult_less_eq)
  then have "i + k * n + n \<le> length lst" using n by simp
  then show ?thesis using divide_loop_nth [OF k] by simp
qed

lemma divide_loop_2500:
  assumes "length lst = 2500"
  shows "map length (divide_loop lst 1000 0) = [1000, 1000, 500]"
proof -
  have l: "length (divide_loop lst 1000 0) = 3" using assms by (simp add: divide_loop_length)
  have "\<And>k. k < 3 \<Longrightarrow> length (divide_loop lst 1000 0 ! k) = [1000, 1000, 500] ! k"
  proof -
    fix k :: nat assume "k < 3"
    then consider "k = 0" | "k = 1" | "k = 2" by linarith
    then show "length (divide_loop lst 1000 0 ! k) = [1000, 1000, 500] ! k"
      using divide_loop_nth [of k lst 1000 0] l assms by cases simp_all
  qed
  then show ?thesis using l by (intro nth_equalityI) simp_all
qed

text \<open>
  Claim C4. For a positive \<open>n\<close>, \<^verbatim>\<open>divide(lst, n)\<close> raises nothing and yields the
  slices \<open>lst[k * n : k * n + n]\<close> in order: their concatenation is \<open>lst\<close>, every
  slice but the last has length \<open>n\<close>, every slice (the last too) has a length between
  \<open>1\<close> and \<open>n\<close>, the empty list yields no slice, and a list of 2500 elements cut by 1000
  yields slices of 1000, 1000 and 500 elements.
\<close>

theorem divide_chunks:
  assumes "0 < n"
  shows "\<exists>chunks. divide lst n = Inr chunks
           \<and> concat chunks = lst
           \<and> (\<forall>k < length chunks. chunks ! k = take (nat n) (drop (k * nat n) lst))
           \<and> (\<forall>k. Suc k < length chunks \<longrightarrow> length (chunks ! k) = nat n)
           \<and> (\<forall>c \<in> set chunks. 1 \<le> length c \<and> length c \<le> nat n)
           \<and> (lst = [] \<longrightarrow> chunks = [])
           \<and> (length lst = 2500 \<and> n = 1000 \<longrightarrow> map length chunks = [1000, 1000, 500])"
proof -
  have d: "divide lst n = Inr (divide_loop lst (nat n) 0)" using assms by (simp add: divide_def)
  have p: "0 < nat n" using assms by simp
  have 1: "concat (divide_loop lst (nat n) 0) = lst" by (simp add: divide_loop_concat [OF p])
  have 2: "\<forall>k < length (divide_loop lst (nat n) 0).
             divide_loop lst (nat n) 0 ! k = take (nat n) (drop (k * nat n) lst)"
    using divide_loop_nth [of _ lst "nat n" 0] by simp
  have 3: "\<forall>k. Suc k < length (divide_loop lst (nat n) 0)
             \<longrightarrow> length (divide_loop lst (nat n) 0 ! k) = nat n"
    using divide_loop_full by blast
  have 4: "\<forall>c \<in> set (divide_loop lst (nat n) 0). 1 \<le> length c \<and> length c \<le> nat n"
    using divide_loop_chunk_bounds by blast
  have 5: "lst = [] \<longrightarrow> divide_loop lst (nat n) 0 = []"
    by (subst divide_loop.simps) simp
  have 6: "length lst = 2500 \<and> n = 1000 \<longrightarrow> map length (divide_loop lst (nat n) 0) = [1000, 1000, 500]"
    using divide_loop_2500 [of lst] by auto
  show ?thesis
  proof (intro exI conjI)
    show "divide lst n = Inr (divide_loop lst (nat n) 0)" by (rule d)
  qed (rule 1 2 3 4 5 6)+
qed

theorem divide_chunks_witness:
  "(0::int) < 2 \<and> divide [1, 2, 3, 4, 5 :: nat] 2 = Inr [[1, 2], [3, 4], [5]]"
  using divide_chunks [of 2 "[1, 2, 3, 4, 5 :: nat]"]
  by (simp add: divide_def divide_loop.simps)

section \<open>Properties of \<^verbatim>\<open>price_conversion\<close>\<close>

lemma py_split_first: "\<exists>ps. py_split sep s = takeWhile (\<lambda>c. c \<noteq> sep) s # ps"
  by (induction s) auto

lemma price_conversion_str: "price_conversion (PStr t) = Inr (filter is_digit (takeWhile (\<lambda>c. c \<noteq> CHR ''.'') t))"
    using py_split_first [of "CHR ''.''" t]
    by (auto simp: price_conversion_def re_sub_non_digits_def)

text \<open>
  Claim C3. On a string, \<^verbatim>\<open>price_conversion\<close> raises nothing and returns the digits
  \<open>0\<close> to \<open>9\<close> of the part before the first dot, in order, and nothing else. The three
  examples of the docstring and the specification follow; the Cyrillic currency word is
  written in UTF-8.
\<close>

theorem price_conversion_digits:
  "price_conversion (PStr s) = Inr (filter is_digit (takeWhile (\<lambda>c. c \<noteq> CHR ''.'') s))
   \<and> price_conversion (PStr (''5'990.00 '' @ [CHR 0xD1, CHR 0x80, CHR 0xD1, CHR 0x83, CHR 0xD0, CHR 0xB1, CHR ''.'']))
       = Inr ''5990''
   \<and> price_conversion (PStr (''1200 '' @ [CHR 0xD1, CHR 0x80, CHR 0xD1, CHR 0x83, CHR 0xD0, CHR 0xB1, CHR ''.'']))
       = Inr ''1200''
   \<and> price_conversion (PStr ''invalid string'') = Inr ''''"
  unfolding price_conversion_str by (simp add: is_digit_def)

section \<open>Properties of the reconciliation\<close>

lemma seller_stocks_loop_counts:
  "seller_stocks_loop feed ids =
     (case matched_counts feed ids of
        Inl e \<Rightarrow> Inl e
      | Inr (ps, ids') \<Rightarrow> Inr (map (\<lambda>(i, n). \<lparr>offer_id = i, stock = n\<rparr>) ps, ids'))"
  by (induction feed arbitrary: ids)
     (simp_all add: stock_rule_def Let_def split: sum.splits prod.splits)

lemma market_stocks_loop_counts:
  "market_stocks_loop date feed ids wh =
     (case matched_counts feed ids of
        Inl e \<Rightarrow> Inl e
      | Inr (ps, ids') \<Rightarrow>
          Inr (map (\<lambda>(i, n). \<lparr>sku = i, warehouseId = wh,
                 items = [\<lparr>item_count = n, item_type = ''FIT'', updatedAt = date\<rparr>]\<rparr>) ps, ids'))"
  by (induction feed arbitrary: ids)
     (simp_all add: stock_rule_def Let_def split: sum.splits prod.splits)

lemma matched_counts_mset:
  "matched_counts feed ids = Inr (ps, ids') \<Longrightarrow> mset (map fst ps) + mset ids' = mset ids"
proof (induction feed arbitrary: ids ps)
  case Nil
  then show ?case by simp
next
  case (Cons w rest)
  show ?case
  proof (cases "code_of w \<in> set ids")
    case True
    with Cons.prems obtain n qs where
      r: "matched_counts rest (remove1 (code_of w) ids) = Inr (qs, ids')"
      and ps: "ps = (code_of w, n) # qs"
      by (auto split: sum.splits prod.splits)
    from Cons.IH [OF r] have "mset (map fst qs) + mset ids' = mset (remove1 (code_of w) ids)" .
    then show ?thesis using True ps by simp
  next
    case False
    with Cons show ?thesis by simp
  qed
qed

lemma matched_counts_codes:
  "matched_counts feed ids = Inr (ps, ids') \<Longrightarrow> fst ` set ps \<subseteq> code_of ` set feed"
proof (induction feed arbitrary: ids ps)
  case Nil
  then show ?case by simp
next
  case (Cons w rest)
  show ?case
  proof (cases "code_of w \<in> set ids")
    case True
    with Cons.prems obtain n qs where
      r: "matched_counts rest (remove1 (code_of w) ids) = Inr (qs, ids')"
      and ps: "ps = (code_of w, n) # qs"
      by (auto split: sum.splits prod.splits)
    from Cons.IH [OF r] show ?thesis using ps by auto
  next
    case False
    with Cons.prems have "matched_counts rest ids = Inr (ps, ids')" by simp
    from Cons.IH [OF this] show ?thesis by auto
  qed
qed

lemma matched_counts_rest:
  "distinct ids \<Longrightarrow> matched_counts feed ids = Inr (ps, ids')
     \<Longrightarrow> ids' = filter (\<lambda>i. i \<notin> code_of ` set feed) ids"
proof (induction feed arbitrary: ids ps)
  case Nil
  then show ?case by simp
next
  case (Cons w rest)
  show ?case
  proof (cases "code_of w \<in> set ids")
    case True
    with Cons.prems obtain n qs where
      r: "matched_counts rest (remove1 (code_of w) ids) = Inr (qs, ids')"
      by (auto split: sum.splits prod.splits)
    have d: "distinct (remove1 (code_of w) ids)" using Cons.prems(1) by simp
    have "ids' = filter (\<lambda>i. i \<notin> code_of ` set rest) (remove1 (code_of w) ids)"
      by (rule Cons.IH [OF d r])
    also have "remove1 (code_of w) ids = filter (\<lambda>i. i \<noteq> code_of w) ids"
      using Cons.prems(1)
      by (simp add: distinct_remove1_removeAll removeAll_filter_not_eq) (metis (lifting) filter_cong)
    finally show ?thesis by (simp add: conj_commute)
  next
    case False
    with Cons.prems have "matched_counts rest ids = Inr (ps, ids')" by simp
    from Cons.IH [OF Cons.prems(1) this]
    have "ids' = filter (\<lambda>i. i \<notin> code_of ` set rest) ids" .
    also have "\<dots> = filter (\<lambda>i. i \<notin> code_of ` set (w # rest)) ids"
      using False by (intro filter_cong) auto
    finally show ?thesis .
  qed
qed

lemma matched_counts_total:
  "(\<forall>w \<in> set feed. \<exists>n. stock_rule w = Inr n) \<Longrightarrow> \<exists>ps ids'. matched_counts feed ids = Inr (ps, ids')"
proof (induction feed arbitrary: ids)
  case Nil
  then show ?case by simp
next
  case (Cons w rest)
  then obtain n where n: "stock_rule w = Inr n" by auto
  from Cons have IH: "\<exists>ps ids'. matched_counts rest j = Inr (ps, ids')" for j by simp
  show ?case
  proof (cases "code_of w \<in> set ids")
    case True
    from IH [of "remove1 (code_of w) ids"] obtain ps ids'
      where "matched_counts rest (remove1 (code_of w) ids) = Inr (ps, ids')" by blast
    then show ?thesis using True n by simp
  next
    case False
    then show ?thesis using IH [of ids] by simp
  qed
qed

lemma matched_counts_append:
  "matched_counts (xs @ ys) ids =
     (case matched_counts xs ids of
        Inl e \<Rightarrow> Inl e
      | Inr (ps, ids1) \<Rightarrow>
          (case matched_counts ys ids1 of
             Inl e \<Rightarrow> Inl e
           | Inr (qs, ids2) \<Rightarrow> Inr (ps @ qs, ids2)))"
  by (induction xs arbitrary: ids) (simp_all split: sum.splits prod.splits)

lemma matched_counts_keeps:
  assumes "matched_counts pre ids = Inr (ps, ids1)" and "c \<notin> code_of ` set pre"
  shows "c \<notin> fst ` set ps" and "count (mset ids1) c = count (mset ids) c"
proof -
  show a: "c \<notin> fst ` set ps" using matched_counts_codes [OF assms(1)] assms(2) by blast
  then have "count (mset (map fst ps)) c = 0" by (simp add: count_eq_zero_iff)
  then show "count (mset ids1) c = count (mset ids) c"
    using arg_cong [OF matched_counts_mset [OF assms(1)], of "\<lambda>m. count m c"] by simp
qed

lemma matched_counts_first:
  assumes r: "matched_counts (pre @ w # rest) ids = Inr (ps, ids')"
    and c: "code_of w \<in> set ids" and pre: "code_of w \<notin> code_of ` set pre"
  shows "\<exists>n. stock_rule w = Inr n \<and> (code_of w, n) \<in> set ps"
proof -
  from r obtain ps1 ids1 qs where
    p: "matched_counts pre ids = Inr (ps1, ids1)"
    and q: "matched_counts (w # rest) ids1 = Inr (qs, ids')"
    and ps: "ps = ps1 @ qs"
    by (auto simp: matched_counts_append split: sum.splits prod.splits)
  have "count (mset ids1) (code_of w) = count (mset ids) (code_of w)"
    by (rule matched_counts_keeps(2) [OF p pre])
  with c have "code_of w \<in> set ids1" by (metis count_mset_0_iff)
  with q obtain n where "stock_rule w = Inr n" "(code_of w, n) \<in> set qs"
    by (auto split: sum.splits prod.splits)
  then show ?thesis using ps by auto
qed

lemma matched_counts_filter_absent:
  "c \<notin> set ids \<Longrightarrow> matched_counts (filter (\<lambda>v. code_of v \<noteq> c) feed) ids = matched_counts feed ids"
proof (induction feed arbitrary: ids)
  case Nil
  then show ?case by simp
next
  case (Cons w rest)
  have "c \<notin> set (remove1 (code_of w) ids)" using Cons.prems by (metis notin_set_remove1)
  then have r: "matched_counts (filter (\<lambda>v. code_of v \<noteq> c) rest) (remove1 (code_of w) ids)
                  = matched_counts rest (remove1 (code_of w) ids)" by (rule Cons.IH)
  have s: "matched_counts (filter (\<lambda>v. code_of v \<noteq> c) rest) ids = matched_counts rest ids"
    by (rule Cons.IH [OF Cons.prems])
  show ?case using r s Cons.prems by (auto split: sum.splits)
qed

lemma matched_counts_duplicates:
  assumes d: "distinct ids" and pre: "code_of w \<notin> code_of ` set pre"
  shows "matched_counts (pre @ w # filter (\<lambda>v. code_of v \<noteq> code_of w) rest) ids
           = matched_counts (pre @ w # rest) ids"
proof (cases "matched_counts pre ids")
  case (Inl e)
  then show ?thesis by (simp add: matched_counts_append)
next
  case (Inr r)
  then obtain ps1 ids1 where p: "matched_counts pre ids = Inr (ps1, ids1)" by (cases r) auto
  have "mset (map fst ps1 @ ids1) = mset ids" using matched_counts_mset [OF p] by simp
  then have "distinct (map fst ps1 @ ids1)" using d mset_eq_imp_distinct_iff by blast
  then have d1: "distinct ids1" by simp
  have tail: "matched_counts (w # filter (\<lambda>v. code_of v \<noteq> code_of w) rest) ids1
                = matched_counts (w # rest) ids1"
  proof (cases "code_of w \<in> set ids1")
    case True
    have "code_of w \<notin> set (remove1 (code_of w) ids1)" using d1 by simp
    from matched_counts_filter_absent [OF this] show ?thesis using True by (simp split: sum.splits)
  next
    case False
    from matched_counts_filter_absent [OF this] show ?thesis using False by simp
  qed
  show ?thesis unfolding matched_counts_append p using tail by simp
qed

lemma seller_create_stocks_reconciled:
  "seller_create_stocks feed ids =
     (case reconciled feed ids of
        Inl e \<Rightarrow> Inl e
      | Inr (cs, ids') \<Rightarrow> Inr (map (\<lambda>(i, n). \<lparr>offer_id = i, stock = n\<rparr>) cs, ids'))"
  by (simp add: seller_create_stocks_def reconciled_def seller_stocks_loop_counts comp_def
      split: sum.splits prod.splits)

lemma market_create_stocks_reconciled:
  "market_create_stocks date feed ids wh =
     (case reconciled feed ids of
        Inl e \<Rightarrow> Inl e
      | Inr (cs, ids') \<Rightarrow>
          Inr (map (\<lambda>(i, n). \<lparr>sku = i, warehouseId = wh,
                 items = [\<lparr>item_count = n, item_type = ''FIT'', updatedAt = date\<rparr>]\<rparr>) cs, ids'))"
  by (simp add: market_create_stocks_def reconciled_def market_stocks_loop_counts comp_def
      split: sum.splits prod.splits)

lemma reconciled_mset:
  assumes "reconciled feed ids = Inr (cs, ids')"
  shows "mset (map fst cs) = mset ids"
proof -
  from assms obtain ps where p: "matched_counts feed ids = Inr (ps, ids')"
    and cs: "cs = ps @ map (\<lambda>i. (i, 0)) ids'"
    by (auto simp: reconciled_def split: sum.splits prod.splits)
  show ?thesis using matched_counts_mset [OF p] by (simp add: cs comp_def)
qed

lemma reconciled_first:
  assumes "reconciled (pre @ w # rest) ids = Inr (cs, ids')"
    and "code_of w \<in> set ids" and "code_of w \<notin> code_of ` set pre"
  shows "\<exists>n. stock_rule w = Inr n \<and> (code_of w, n) \<in> set cs"
proof -
  from assms(1) obtain ps where p: "matched_counts (pre @ w # rest) ids = Inr (ps, ids')"
    and cs: "cs = ps @ map (\<lambda>i. (i, 0)) ids'"
    by (auto simp: reconciled_def split: sum.splits prod.splits)
  from matched_counts_first [OF p assms(2,3)] show ?thesis using cs by auto
qed

lemma filter_fst_single:
  "distinct (map fst cs) \<Longrightarrow> (c, n) \<in> set cs \<Longrightarrow> filter (\<lambda>p. fst p = c) cs = [(c, n)]"
proof (induction cs)
  case Nil
  then show ?case by simp
next
  case (Cons p cs)
  show ?case
  proof (cases "fst p = c")
    case True
    with Cons.prems have "p = (c, n)" by (cases p) force
    moreover have "filter (\<lambda>p. fst p = c) cs = []"
      using Cons.prems(1) True by (force simp: filter_empty_conv image_iff)
    ultimately show ?thesis by simp
  next
    case False
    with Cons show ?thesis by auto
  qed
qed

lemma reconciled_unique:
  assumes "distinct ids" and "reconciled feed ids = Inr (cs, ids')" and "(c, n) \<in> set cs"
  shows "filter (\<lambda>p. fst p = c) cs = [(c, n)]"
proof -
  have "distinct (map fst cs)"
    using reconciled_mset [OF assms(2)] assms(1) mset_eq_imp_distinct_iff by blast
  then show ?thesis using assms(3) by (rule filter_fst_single)
qed

lemma reconciled_absent:
  assumes "reconciled feed ids = Inr (cs, ids')" and "i \<in> set ids" and "i \<notin> code_of ` set feed"
  shows "(i, 0) \<in> set cs" and "\<forall>n. (i, n) \<in> set cs \<longrightarrow> n = 0"
proof -
  from assms(1) obtain ps where p: "matched_counts feed ids = Inr (ps, ids')"
    and cs: "cs = ps @ map (\<lambda>i. (i, 0)) ids'"
    by (auto simp: reconciled_def split: sum.splits prod.splits)
  have a: "i \<notin> fst ` set ps" by (rule matched_counts_keeps(1) [OF p assms(3)])
  have "count (mset ids') i = count (mset ids) i" by (rule matched_counts_keeps(2) [OF p assms(3)])
  with assms(2) have "i \<in> set ids'" by (metis count_mset_0_iff)
  then show "(i, 0) \<in> set cs" by (simp add: cs)
  show "\<forall>n. (i, n) \<in> set cs \<longrightarrow> n = 0" using a by (force simp: cs)
qed

lemma reconciled_rest:
  assumes "distinct ids" and "reconciled feed ids = Inr (cs, ids')"
  shows "ids' = filter (\<lambda>i. i \<notin> code_of ` set feed) ids"
proof -
  from assms(2) obtain ps where p: "matched_counts feed ids = Inr (ps, ids')"
    by (auto simp: reconciled_def split: sum.splits prod.splits)
  show ?thesis by (rule matched_counts_rest [OF assms(1) p])
qed

lemma reconciled_total:
  assumes "\<forall>w \<in> set feed. \<exists>n. stock_rule w = Inr n"
  shows "\<exists>cs ids'. reconciled feed ids = Inr (cs, ids')"
  using matched_counts_total [OF assms, of ids] by (auto simp: reconciled_def)

lemma reconciled_duplicates:
  assumes "distinct ids" and "code_of w \<notin> code_of ` set pre"
  shows "reconciled (pre @ w # filter (\<lambda>v. code_of v \<noteq> code_of w) rest) ids
           = reconciled (pre @ w # rest) ids"
  unfolding reconciled_def matched_counts_duplicates [OF assms] ..

lemma get_row [simp]:
  "get (row c q p) Kod = c" "get (row c q p) Kolichestvo = q" "get (row c q p) Tsena = p"
  by (simp_all add: row_def get_def Kod_def Kolichestvo_def Tsena_def)

lemma py_str_PStr [simp]: "py_str (PStr s) = s"
  by (simp add: py_str_def)

lemma int_of_str_7: "int_of_str ''7'' = Inr 7"
  by (simp add: int_of_str_def long_from_string_def strip_def is_space_def nat_of_digits_def
      is_digit_def digit_val_def max_str_digits_def)

lemma int_of_str_5: "int_of_str ''5'' = Inr 5"
  by (simp add: int_of_str_def long_from_string_def strip_def is_space_def nat_of_digits_def
      is_digit_def digit_val_def max_str_digits_def)


text \<open>
  Claim C1. Whenever \<^verbatim>\<open>create_stocks\<close> (of \<^verbatim>\<open>seller.py\<close> or of \<^verbatim>\<open>market.py\<close>)
  returns, the identifiers of the entries it returns are the identifiers it was given,
  each as often as it was given: the list has as many entries as there were identifiers,
  and for a set of identifiers (a list without repetition) no identifier comes twice and
  none is missing or added. This holds for every feed, also one that repeats a code.
  The function returns whenever the quantity of every row can be read.
\<close>

theorem create_stocks_one_entry_per_identifier:
  "(seller_create_stocks feed ids = Inr (stocks, ids') \<longrightarrow>
      mset (map offer_id stocks) = mset ids \<and> length stocks = length ids
      \<and> (distinct ids \<longrightarrow> distinct (map offer_id stocks) \<and> set (map offer_id stocks) = set ids))
   \<and> (market_create_stocks date feed ids wh = Inr (mstocks, mids') \<longrightarrow>
      mset (map sku mstocks) = mset ids \<and> length mstocks = length ids
      \<and> (distinct ids \<longrightarrow> distinct (map sku mstocks) \<and> set (map sku mstocks) = set ids))
   \<and> ((\<forall>w \<in> set feed. \<exists>n. stock_rule w = Inr n) \<longrightarrow>
        (\<exists>stocks ids'. seller_create_stocks feed ids = Inr (stocks, ids'))
        \<and> (\<exists>mstocks mids'. market_create_stocks date feed ids wh = Inr (mstocks, mids')))"
proof -
  have key: "mset xs = mset ids \<Longrightarrow>
      mset xs = mset ids \<and> length xs = length ids
      \<and> (distinct ids \<longrightarrow> distinct xs \<and> set xs = set ids)" for xs :: "string list"
    by (metis mset_eq_imp_distinct_iff mset_eq_setD size_mset)
  have s: "mset (map offer_id stocks) = mset ids \<and> length (map offer_id stocks) = length ids
      \<and> (distinct ids \<longrightarrow> distinct (map offer_id stocks) \<and> set (map offer_id stocks) = set ids)"
    if "seller_create_stocks feed ids = Inr (stocks, ids')"
  proof -
    from that obtain cs where r: "reconciled feed ids = Inr (cs, ids')"
      and st: "stocks = map (\<lambda>(i, n). \<lparr>offer_id = i, stock = n\<rparr>) cs"
      by (auto simp: seller_create_stocks_reconciled split: sum.splits prod.splits)
    have "map offer_id stocks = map fst cs" by (simp add: st case_prod_beta)
    then show ?thesis using key [OF reconciled_mset [OF r]] by metis
  qed
  have m: "mset (map sku mstocks) = mset ids \<and> length (map sku mstocks) = length ids
      \<and> (distinct ids \<longrightarrow> distinct (map sku mstocks) \<and> set (map sku mstocks) = set ids)"
    if "market_create_stocks date feed ids wh = Inr (mstocks, mids')"
  proof -
    from that obtain cs where r: "reconciled feed ids = Inr (cs, mids')"
      and st: "mstocks = map (\<lambda>(i, n). \<lparr>sku = i, warehouseId = wh,
                 items = [\<lparr>item_count = n, item_type = ''FIT'', updatedAt = date\<rparr>]\<rparr>) cs"
      by (auto simp: market_create_stocks_reconciled split: sum.splits prod.splits)
    have "map sku mstocks = map fst cs" by (simp add: st case_prod_beta)
    then show ?thesis using key [OF reconciled_mset [OF r]] by metis
  qed
  have t: "(\<exists>stocks ids'. seller_create_stocks feed ids = Inr (stocks, ids'))
        \<and> (\<exists>mstocks mids'. market_create_stocks date feed ids wh = Inr (mstocks, mids'))"
    if "\<forall>w \<in> set feed. \<exists>n. stock_rule w = Inr n"
    using reconciled_total [OF that, of ids]
    by (auto simp: seller_create_stocks_reconciled market_create_stocks_reconciled)
  show ?thesis using s m t by simp
qed

theorem create_stocks_one_entry_per_identifier_witness:
  "seller_create_stocks
     [row (PStr ''A'') (PStr ''>10'') (PStr ''100.00 x''), row (PStr ''B'') (PStr ''1'') (PStr ''50.00 x'')]
     [''A'', ''B'', ''C'']
   = Inr ([\<lparr>offer_id = ''A'', stock = 100\<rparr>, \<lparr>offer_id = ''B'', stock = 0\<rparr>,
           \<lparr>offer_id = ''C'', stock = 0\<rparr>], [''C''])
   \<and> mset (map offer_id [\<lparr>offer_id = ''A'', stock = 100\<rparr>, \<lparr>offer_id = ''B'', stock = 0\<rparr>,
           \<lparr>offer_id = ''C'', stock = 0\<rparr>]) = mset [''A'', ''B'', ''C'']"
  using create_stocks_one_entry_per_identifier
    [of "[row (PStr ''A'') (PStr ''>10'') (PStr ''100.00 x''), row (PStr ''B'') (PStr ''1'') (PStr ''50.00 x'')]"
        "[''A'', ''B'', ''C'']"
        "[\<lparr>offer_id = ''A'', stock = 100\<rparr>, \<lparr>offer_id = ''B'', stock = 0\<rparr>, \<lparr>offer_id = ''C'', stock = 0\<rparr>]"
        "[''C'']"]
  by (simp add: seller_create_stocks_def)

text \<open>
  Claim C5 (that the call leaves \<^verbatim>\<open>offer_ids\<close> empty) fails: with the identifiers
  \<open>A\<close> and \<open>B\<close> and a feed that holds \<open>A\<close> only, the call returns and leaves
  \<open>B\<close> in the list. The second loop reads the list and removes nothing.
\<close>

theorem create_stocks_leaves_unmatched_counterexample:
  "seller_create_stocks [row (PStr ''A'') (PStr ''5'') (PStr ''100.00 x'')] [''A'', ''B'']
     = Inr ([\<lparr>offer_id = ''A'', stock = 5\<rparr>, \<lparr>offer_id = ''B'', stock = 0\<rparr>], [''B''])"
  by (simp add: seller_create_stocks_def py_int_def int_of_str_5)

text \<open>
  Claim C5, as the code has it. When \<^verbatim>\<open>create_stocks\<close> returns, the set passed as
  \<^verbatim>\<open>offer_ids\<close> holds exactly the identifiers that are the code of no row of the
  feed, in their order: the matched identifiers have been removed, the others stay. It is
  empty only when every identifier was matched.
\<close>

theorem create_stocks_leaves_unmatched:
  assumes "distinct ids"
  shows "(seller_create_stocks feed ids = Inr (stocks, ids') \<longrightarrow>
            ids' = filter (\<lambda>i. i \<notin> (\<lambda>w. py_str (get w Kod)) ` set feed) ids)
       \<and> (market_create_stocks date feed ids wh = Inr (mstocks, mids') \<longrightarrow>
            mids' = filter (\<lambda>i. i \<notin> (\<lambda>w. py_str (get w Kod)) ` set feed) ids)"
  using reconciled_rest [OF assms, of feed]
  by (auto simp: seller_create_stocks_reconciled market_create_stocks_reconciled
      split: sum.splits prod.splits)

theorem create_stocks_leaves_unmatched_witness:
  "distinct [''A'', ''B''] \<and>
   seller_create_stocks [row (PStr ''A'') (PStr ''5'') (PStr ''100.00 x'')] [''A'', ''B'']
     = Inr ([\<lparr>offer_id = ''A'', stock = 5\<rparr>, \<lparr>offer_id = ''B'', stock = 0\<rparr>], [''B''])
   \<and> [''B''] = filter (\<lambda>i. i \<notin> (\<lambda>w. py_str (get w Kod)) `
          set [row (PStr ''A'') (PStr ''5'') (PStr ''100.00 x'')]) [''A'', ''B'']"
  using create_stocks_leaves_unmatched
    [of "[''A'', ''B'']" "[row (PStr ''A'') (PStr ''5'') (PStr ''100.00 x'')]"
        "[\<lparr>offer_id = ''A'', stock = 5\<rparr>, \<lparr>offer_id = ''B'', stock = 0\<rparr>]" "[''B'']"]
  by (simp add: seller_create_stocks_def py_int_def int_of_str_5)

lemma seller_create_prices_ids:
  "seller_create_prices feed ids = Inr prices
     \<Longrightarrow> price_offer_id ` set prices \<subseteq> code_of ` set feed \<inter> set ids"
proof (induction feed arbitrary: prices)
  case Nil
  then show ?case by simp
next
  case (Cons w rest)
  show ?case
  proof (cases "code_of w \<in> set ids")
    case True
    with Cons.prems obtain p ps where r: "seller_create_prices rest ids = Inr ps"
      and pr: "prices = \<lparr>auto_action_enabled = ''UNKNOWN'', currency_code = ''RUB'',
                 price_offer_id = code_of w, old_price = ''0'', price = p\<rparr> # ps"
      by (auto split: sum.splits)
    from Cons.IH [OF r] show ?thesis using True pr by auto
  next
    case False
    with Cons.prems have "seller_create_prices rest ids = Inr prices" by simp
    from Cons.IH [OF this] show ?thesis by auto
  qed
qed

lemma market_create_prices_ids:
  "market_create_prices feed ids = Inr prices
     \<Longrightarrow> price_id ` set prices \<subseteq> code_of ` set feed \<inter> set ids"
proof (induction feed arbitrary: prices)
  case Nil
  then show ?case by simp
next
  case (Cons w rest)
  show ?case
  proof (cases "code_of w \<in> set ids")
    case True
    with Cons.prems obtain v ps where r: "market_create_prices rest ids = Inr ps"
      and pr: "prices = \<lparr>price_id = code_of w,
                 price_body = \<lparr>price_value = v, currencyId = ''RUR''\<rparr>\<rparr> # ps"
      by (auto split: sum.splits)
    from Cons.IH [OF r] show ?thesis using True pr by auto
  next
    case False
    with Cons.prems have "market_create_prices rest ids = Inr prices" by simp
    from Cons.IH [OF this] show ?thesis by auto
  qed
qed

text \<open>
  Claim C7. For an identifier that is the code of no row of the feed, \<^verbatim>\<open>create_stocks\<close>
  returns an entry with count 0, and every entry it returns for that identifier has count
  0; \<^verbatim>\<open>create_prices\<close> returns no entry for it, and returns entries only for codes
  of the feed. Both marketplaces.
\<close>

theorem unmatched_identifier_zero_stock_no_price:
  assumes "i \<in> set ids" and "i \<notin> (\<lambda>w. py_str (get w Kod)) ` set feed"
  shows "(seller_create_stocks feed ids = Inr (stocks, ids') \<longrightarrow>
            \<lparr>offer_id = i, stock = 0\<rparr> \<in> set stocks
            \<and> (\<forall>x \<in> set stocks. offer_id x = i \<longrightarrow> stock x = 0))
       \<and> (seller_create_prices feed ids = Inr prices \<longrightarrow>
            i \<notin> price_offer_id ` set prices
            \<and> price_offer_id ` set prices \<subseteq> (\<lambda>w. py_str (get w Kod)) ` set feed)
       \<and> (market_create_stocks date feed ids wh = Inr (mstocks, mids') \<longrightarrow>
            \<lparr>sku = i, warehouseId = wh,
              items = [\<lparr>item_count = 0, item_type = ''FIT'', updatedAt = date\<rparr>]\<rparr> \<in> set mstocks
            \<and> (\<forall>x \<in> set mstocks. sku x = i \<longrightarrow> map item_count (items x) = [0]))
       \<and> (market_create_prices feed ids = Inr mprices \<longrightarrow>
            i \<notin> price_id ` set mprices
            \<and> price_id ` set mprices \<subseteq> (\<lambda>w. py_str (get w Kod)) ` set feed)"
proof -
  have s: "\<lparr>offer_id = i, stock = 0\<rparr> \<in> set stocks
            \<and> (\<forall>x \<in> set stocks. offer_id x = i \<longrightarrow> stock x = 0)"
    if "seller_create_stocks feed ids = Inr (stocks, ids')"
  proof -
    from that obtain cs where r: "reconciled feed ids = Inr (cs, ids')"
      and st: "stocks = map (\<lambda>(i, n). \<lparr>offer_id = i, stock = n\<rparr>) cs"
      by (auto simp: seller_create_stocks_reconciled split: sum.splits prod.splits)
    from reconciled_absent [OF r assms] show ?thesis unfolding st by force
  qed
  have m: "\<lparr>sku = i, warehouseId = wh,
              items = [\<lparr>item_count = 0, item_type = ''FIT'', updatedAt = date\<rparr>]\<rparr> \<in> set mstocks
            \<and> (\<forall>x \<in> set mstocks. sku x = i \<longrightarrow> map item_count (items x) = [0])"
    if "market_create_stocks date feed ids wh = Inr (mstocks, mids')"
  proof -
    from that obtain cs where r: "reconciled feed ids = Inr (cs, mids')"
      and st: "mstocks = map (\<lambda>(i, n). \<lparr>sku = i, warehouseId = wh,
                 items = [\<lparr>item_count = n, item_type = ''FIT'', updatedAt = date\<rparr>]\<rparr>) cs"
      by (auto simp: market_create_stocks_reconciled split: sum.splits prod.splits)
    from reconciled_absent [OF r assms] show ?thesis unfolding st by force
  qed
  have p: "i \<notin> price_offer_id ` set prices
            \<and> price_offer_id ` set prices \<subseteq> (\<lambda>w. py_str (get w Kod)) ` set feed"
    if "seller_create_prices feed ids = Inr prices"
    using seller_create_prices_ids [OF that] assms(2) by blast
  have q: "i \<notin> price_id ` set mprices
            \<and> price_id ` set mprices \<subseteq> (\<lambda>w. py_str (get w Kod)) ` set feed"
    if "market_create_prices feed ids = Inr mprices"
    using market_create_prices_ids [OF that] assms(2) by blast
  show ?thesis using s m p q by blast
qed
































lemma stock_rule_unfold:
  "stock_rule w =
     (if py_str (get w Kolichestvo) = ''>10'' then Inr 100
      else if py_str (get w Kolichestvo) = ''1'' then Inr 0
      else py_int (get w Kolichestvo))"
  by (simp add: stock_rule_def Let_def)





text \<open>
  Claim C6. For a set of identifiers, let \<open>w\<close> be the first row of the feed with its
  code, the code being among the identifiers. The later rows with the same code change
  nothing: \<^verbatim>\<open>create_stocks\<close> does the same with and without them. If it returns,
  exactly one of the entries has that code, and its count is the count of \<open>w\<close>.
\<close>

theorem duplicate_codes_first_wins:
  assumes "distinct ids" and "code_of w \<in> set ids" and "code_of w \<notin> code_of ` set pre"
  shows "seller_create_stocks (pre @ w # filter (\<lambda>v. code_of v \<noteq> code_of w) rest) ids
           = seller_create_stocks (pre @ w # rest) ids
       \<and> (seller_create_stocks (pre @ w # rest) ids = Inr (stocks, ids') \<longrightarrow>
            (\<exists>n. (if py_str (get w Kolichestvo) = ''>10'' then Inr 100
                   else if py_str (get w Kolichestvo) = ''1'' then Inr 0
                   else py_int (get w Kolichestvo)) = Inr n
                \<and> filter (\<lambda>x. offer_id x = code_of w) stocks = [\<lparr>offer_id = code_of w, stock = n\<rparr>]))
       \<and> market_create_stocks date (pre @ w # filter (\<lambda>v. code_of v \<noteq> code_of w) rest) ids wh
           = market_create_stocks date (pre @ w # rest) ids wh
       \<and> (market_create_stocks date (pre @ w # rest) ids wh = Inr (mstocks, mids') \<longrightarrow>
            (\<exists>n. (if py_str (get w Kolichestvo) = ''>10'' then Inr 100
                   else if py_str (get w Kolichestvo) = ''1'' then Inr 0
                   else py_int (get w Kolichestvo)) = Inr n
                \<and> filter (\<lambda>x. sku x = code_of w) mstocks
                    = [\<lparr>sku = code_of w, warehouseId = wh,
                        items = [\<lparr>item_count = n, item_type = ''FIT'', updatedAt = date\<rparr>]\<rparr>]))"
proof -
  have d: "reconciled (pre @ w # filter (\<lambda>v. code_of v \<noteq> code_of w) rest) ids
             = reconciled (pre @ w # rest) ids"
    by (rule reconciled_duplicates [OF assms(1,3)])
  have 1: "seller_create_stocks (pre @ w # filter (\<lambda>v. code_of v \<noteq> code_of w) rest) ids
           = seller_create_stocks (pre @ w # rest) ids"
    unfolding seller_create_stocks_reconciled d ..
  have 3: "market_create_stocks date (pre @ w # filter (\<lambda>v. code_of v \<noteq> code_of w) rest) ids wh
           = market_create_stocks date (pre @ w # rest) ids wh"
    unfolding market_create_stocks_reconciled d ..
  have u: "\<exists>n. stock_rule w = Inr n \<and> filter (\<lambda>p. fst p = code_of w) cs = [(code_of w, n)]"
    if r: "reconciled (pre @ w # rest) ids = Inr (cs, i')" for cs i'
  proof -
    from reconciled_first [OF r assms(2,3)] obtain n
      where n: "stock_rule w = Inr n" and mem: "(code_of w, n) \<in> set cs" by blast
    from reconciled_unique [OF assms(1) r mem] n show ?thesis by blast
  qed
  have 2: "\<exists>n. stock_rule w = Inr n
            \<and> filter (\<lambda>x. offer_id x = code_of w) stocks = [\<lparr>offer_id = code_of w, stock = n\<rparr>]"
    if "seller_create_stocks (pre @ w # rest) ids = Inr (stocks, ids')"
  proof -
    from that obtain cs where r: "reconciled (pre @ w # rest) ids = Inr (cs, ids')"
      and st: "stocks = map (\<lambda>(i, n). \<lparr>offer_id = i, stock = n\<rparr>) cs"
      by (auto simp: seller_create_stocks_reconciled split: sum.splits prod.splits)
    from u [OF r] obtain n where n: "stock_rule w = Inr n"
      and f: "filter (\<lambda>p. fst p = code_of w) cs = [(code_of w, n)]" by blast
    have "filter (\<lambda>x. offer_id x = code_of w) stocks
            = map (\<lambda>(i, n). \<lparr>offer_id = i, stock = n\<rparr>) (filter (\<lambda>p. fst p = code_of w) cs)"
      unfolding st filter_map by (simp add: comp_def case_prod_beta)
    then show ?thesis using n f by simp
  qed
  have 4: "\<exists>n. stock_rule w = Inr n
            \<and> filter (\<lambda>x. sku x = code_of w) mstocks
                = [\<lparr>sku = code_of w, warehouseId = wh,
                    items = [\<lparr>item_count = n, item_type = ''FIT'', updatedAt = date\<rparr>]\<rparr>]"
    if "market_create_stocks date (pre @ w # rest) ids wh = Inr (mstocks, mids')"
  proof -
    from that obtain cs where r: "reconciled (pre @ w # rest) ids = Inr (cs, mids')"
      and st: "mstocks = map (\<lambda>(i, n). \<lparr>sku = i, warehouseId = wh,
                 items = [\<lparr>item_count = n, item_type = ''FIT'', updatedAt = date\<rparr>]\<rparr>) cs"
      by (auto simp: market_create_stocks_reconciled split: sum.splits prod.splits)
    from u [OF r] obtain n where n: "stock_rule w = Inr n"
      and f: "filter (\<lambda>p. fst p = code_of w) cs = [(code_of w, n)]" by blast
    have "filter (\<lambda>x. sku x = code_of w) mstocks
            = map (\<lambda>(i, n). \<lparr>sku = i, warehouseId = wh,
                 items = [\<lparr>item_count = n, item_type = ''FIT'', updatedAt = date\<rparr>]\<rparr>)
                (filter (\<lambda>p. fst p = code_of w) cs)"
      unfolding st filter_map by (simp add: comp_def case_prod_beta)
    then show ?thesis using n f by simp
  qed
  show ?thesis using 1 2 3 4 unfolding stock_rule_unfold by blast
qed

theorem duplicate_codes_first_wins_witness:
  "distinct [''A'', ''B'']
   \<and> seller_create_stocks
       [row (PStr ''A'') (PStr ''7'') PNone, row (PStr ''A'') (PStr ''>10'') PNone,
        row (PStr ''A'') (PStr ''many'') PNone]
       [''A'', ''B'']
     = Inr ([\<lparr>offer_id = ''A'', stock = 7\<rparr>, \<lparr>offer_id = ''B'', stock = 0\<rparr>], [''B''])"
  using duplicate_codes_first_wins
    [of "[''A'', ''B'']" "row (PStr ''A'') (PStr ''7'') PNone" "[]"
        "[row (PStr ''A'') (PStr ''>10'') PNone, row (PStr ''A'') (PStr ''many'') PNone]"
        "[\<lparr>offer_id = ''A'', stock = 7\<rparr>, \<lparr>offer_id = ''B'', stock = 0\<rparr>]" "[''B'']"]
  by (simp add: seller_create_stocks_def py_int_def int_of_str_7)

theorem unmatched_identifier_zero_stock_no_price_witness:
  "''C'' \<in> set [''A'', ''B'', ''C'']
   \<and> seller_create_stocks
       [row (PStr ''A'') (PStr ''>10'') (PStr ''100.00 x''), row (PStr ''B'') (PStr ''1'') (PStr ''50.00 x'')]
       [''A'', ''B'', ''C'']
     = Inr ([\<lparr>offer_id = ''A'', stock = 100\<rparr>, \<lparr>offer_id = ''B'', stock = 0\<rparr>,
             \<lparr>offer_id = ''C'', stock = 0\<rparr>], [''C''])
   \<and> seller_create_prices
       [row (PStr ''A'') (PStr ''>10'') (PStr ''100.00 x''), row (PStr ''B'') (PStr ''1'') (PStr ''50.00 x'')]
       [''A'', ''B'', ''C'']
     = Inr [\<lparr>auto_action_enabled = ''UNKNOWN'', currency_code = ''RUB'', price_offer_id = ''A'',
             old_price = ''0'', price = ''100''\<rparr>,
            \<lparr>auto_action_enabled = ''UNKNOWN'', currency_code = ''RUB'', price_offer_id = ''B'',
             old_price = ''0'', price = ''50''\<rparr>]"
  using unmatched_identifier_zero_stock_no_price
    [of "''C''" "[''A'', ''B'', ''C'']"
        "[row (PStr ''A'') (PStr ''>10'') (PStr ''100.00 x''), row (PStr ''B'') (PStr ''1'') (PStr ''50.00 x'')]"]
  by (simp add: seller_create_stocks_def price_conversion_str is_digit_def)

section \<open>Properties of the uploads and the entry points\<close>

lemma divide_limits:
  assumes "0 < n" and "divide xs n = Inr chunks"
  shows "\<forall>c \<in> set chunks. length c \<le> nat n" and "concat chunks = xs"
proof -
  from assms have c: "chunks = divide_loop xs (nat n) 0" by (simp add: divide_def)
  show "\<forall>c \<in> set chunks. length c \<le> nat n" unfolding c using divide_loop_chunk_bounds by blast
  show "concat chunks = xs" unfolding c using assms(1) by (simp add: divide_loop_concat)
qed

lemma seller_create_prices_unmatched:
  "set ids \<inter> code_of ` set feed = {} \<Longrightarrow> seller_create_prices feed ids = Inr []"
  by (induction feed) auto

lemma seller_main_sends_no_price:
  assumes "distinct ids"
  shows "price_calls (seller_main ids feed) = []"
proof (cases "seller_create_stocks feed ids")
  case (Inl e)
  then show ?thesis by (simp add: seller_main_def)
next
  case (Inr r)
  then obtain stocks ids' where r: "seller_create_stocks feed ids = Inr (stocks, ids')"
    by (cases r) auto
  then obtain cs where "reconciled feed ids = Inr (cs, ids')"
    by (auto simp: seller_create_stocks_reconciled split: sum.splits prod.splits)
  from reconciled_rest [OF assms this] have "set ids' \<inter> code_of ` set feed = {}" by auto
  then have p: "seller_create_prices feed ids' = Inr []" by (rule seller_create_prices_unmatched)
  have "divide ([] :: ozon_price list) 900 = Inr []"
    by (simp add: divide_def divide_loop.simps)
  then show ?thesis using r p by (simp add: seller_main_def split: sum.splits)
qed

text \<open>
  Claim C8. The orchestrator's price list should be \<^verbatim>\<open>create_prices\<close> on the feed and
  the account's identifiers as fetched. \<^verbatim>\<open>main\<close> of \<^verbatim>\<open>seller.py\<close> instead hands
  \<^verbatim>\<open>create_prices\<close> the list that \<^verbatim>\<open>create_stocks\<close> has just consumed. For the
  account with the single identifier \<open>A\<close> and a feed row for \<open>A\<close>, the run sends the
  stock of \<open>A\<close>, raises nothing and sends no price at all, while \<^verbatim>\<open>create_prices\<close> on
  the identifiers as fetched, and the sibling \<^verbatim>\<open>upload_prices\<close> that fetches them again,
  give the price entry of \<open>A\<close>.
\<close>

theorem seller_main_prices_from_consumed_identifiers:
  "stock_calls (seller_main [''A''] [row (PStr ''A'') (PStr ''5'') (PStr ''100.00 x'')])
     = [[\<lparr>offer_id = ''A'', stock = 5\<rparr>]]
   \<and> price_calls (seller_main [''A''] [row (PStr ''A'') (PStr ''5'') (PStr ''100.00 x'')]) = []
   \<and> printed (seller_main [''A''] [row (PStr ''A'') (PStr ''5'') (PStr ''100.00 x'')]) = None
   \<and> seller_create_prices [row (PStr ''A'') (PStr ''5'') (PStr ''100.00 x'')] [''A'']
     = Inr [\<lparr>auto_action_enabled = ''UNKNOWN'', currency_code = ''RUB'', price_offer_id = ''A'',
             old_price = ''0'', price = ''100''\<rparr>]
   \<and> seller_upload_prices [row (PStr ''A'') (PStr ''5'') (PStr ''100.00 x'')] [''A'']
     = Inr ([[\<lparr>auto_action_enabled = ''UNKNOWN'', currency_code = ''RUB'', price_offer_id = ''A'',
               old_price = ''0'', price = ''100''\<rparr>]],
            [\<lparr>auto_action_enabled = ''UNKNOWN'', currency_code = ''RUB'', price_offer_id = ''A'',
              old_price = ''0'', price = ''100''\<rparr>])"
  by (simp add: seller_main_def seller_upload_prices_def seller_create_stocks_def py_int_def
      int_of_str_5 price_conversion_str is_digit_def divide_def divide_loop.simps)

lemma seller_main_limits:
  "(\<forall>c \<in> set (stock_calls (seller_main ids feed)). length c \<le> 100)
   \<and> (\<forall>c \<in> set (price_calls (seller_main ids feed)). length c \<le> 900)"
proof -
  have a: "divide xs 100 = Inr chunks \<Longrightarrow> \<forall>c \<in> set chunks. length c \<le> 100"
    for xs :: "ozon_stock list" and chunks
    using divide_limits(1) [of 100 xs chunks] by simp
  have b: "divide xs 900 = Inr chunks \<Longrightarrow> \<forall>c \<in> set chunks. length c \<le> 900"
    for xs :: "ozon_price list" and chunks
    using divide_limits(1) [of 900 xs chunks] by simp
  show ?thesis using a b by (auto simp: seller_main_def split: sum.splits prod.splits)
qed

lemma market_main_limits:
  "\<forall>c \<in> set (stock_calls (market_main d1 d2 ids1 ids2 feed w1 w2)). length c \<le> 2000"
proof -
  have a: "divide xs 2000 = Inr chunks \<Longrightarrow> \<forall>c \<in> set chunks. length c \<le> 2000"
    for xs :: "market_stock list" and chunks
    using divide_limits(1) [of 2000 xs chunks] by simp
  show ?thesis using a by (auto simp: market_main_def split: sum.splits prod.splits)
qed

text \<open>
  Claim C9. Every chunk handed to a write endpoint is within the endpoint's limit: at
  most 100 stock entries and at most 1000 (in \<^verbatim>\<open>main\<close> 900) price entries for Ozon,
  at most 2000 stock entries and at most 500 price entries for Yandex Market, on every
  path that uploads: the four \<^verbatim>\<open>upload_\<close> functions and the two \<^verbatim>\<open>main\<close>s (FBS and
  DBS go through the same code). The chunks sent are, joined, the whole list.
\<close>

theorem upload_chunk_limits:
  "(seller_upload_stocks feed ids = Inr (sent, not_empty, stocks) \<longrightarrow>
      (\<forall>c \<in> set sent. length c \<le> 100) \<and> concat sent = stocks)
   \<and> (seller_upload_prices feed ids = Inr (psent, prices) \<longrightarrow>
      (\<forall>c \<in> set psent. length c \<le> 1000) \<and> concat psent = prices)
   \<and> (\<forall>c \<in> set (stock_calls (seller_main ids feed)). length c \<le> 100)
   \<and> (\<forall>c \<in> set (price_calls (seller_main ids feed)). length c \<le> 900)
   \<and> (market_upload_stocks date feed ids wh = Inr (msent, mnot_empty, mstocks) \<longrightarrow>
      (\<forall>c \<in> set msent. length c \<le> 2000) \<and> concat msent = mstocks)
   \<and> (market_upload_prices feed ids = Inr (mpsent, mprices) \<longrightarrow>
      (\<forall>c \<in> set mpsent. length c \<le> 500) \<and> concat mpsent = mprices)
   \<and> (\<forall>c \<in> set (stock_calls (market_main date_fbs date_dbs ids_fbs ids_dbs feed wh_fbs wh_dbs)).
        length c \<le> 2000)"
proof -
  have 1: "(\<forall>c \<in> set sent. length c \<le> 100) \<and> concat sent = stocks"
    if "seller_upload_stocks feed ids = Inr (sent, not_empty, stocks)"
  proof -
    from that have "divide stocks 100 = Inr sent"
      by (auto simp: seller_upload_stocks_def split: sum.splits prod.splits)
    from divide_limits [OF _ this] show ?thesis by simp
  qed
  have 2: "(\<forall>c \<in> set psent. length c \<le> 1000) \<and> concat psent = prices"
    if "seller_upload_prices feed ids = Inr (psent, prices)"
  proof -
    from that have "divide prices 1000 = Inr psent"
      by (auto simp: seller_upload_prices_def split: sum.splits prod.splits)
    from divide_limits [OF _ this] show ?thesis by simp
  qed
  have 3: "(\<forall>c \<in> set msent. length c \<le> 2000) \<and> concat msent = mstocks"
    if "market_upload_stocks date feed ids wh = Inr (msent, mnot_empty, mstocks)"
  proof -
    from that have "divide mstocks 2000 = Inr msent"
      by (auto simp: market_upload_stocks_def split: sum.splits prod.splits)
    from divide_limits [OF _ this] show ?thesis by simp
  qed
  have 4: "(\<forall>c \<in> set mpsent. length c \<le> 500) \<and> concat mpsent = mprices"
    if "market_upload_prices feed ids = Inr (mpsent, mprices)"
  proof -
    from that have "divide mprices 500 = Inr mpsent"
      by (auto simp: market_upload_prices_def split: sum.splits prod.splits)
    from divide_limits [OF _ this] show ?thesis by simp
  qed
  show ?thesis
    using 1 2 3 4 seller_main_limits [of ids feed]
      market_main_limits [of date_fbs date_dbs ids_fbs ids_dbs feed wh_fbs wh_dbs]
    by simp
qed

lemma divide_loop_250:
  assumes "length lst = 250"
  shows "map length (divide_loop lst 100 0) = [100, 100, 50]"
proof -
  have l: "length (divide_loop lst 100 0) = 3" using assms by (simp add: divide_loop_length)
  have "\<And>k. k < 3 \<Longrightarrow> length (divide_loop lst 100 0 ! k) = [100, 100, 50] ! k"
  proof -
    fix k :: nat assume "k < 3"
    then consider "k = 0" | "k = 1" | "k = 2" by linarith
    then show "length (divide_loop lst 100 0 ! k) = [100, 100, 50] ! k"
      using divide_loop_nth [of k lst 100 0] l assms by cases simp_all
  qed
  then show ?thesis using l by (intro nth_equalityI) simp_all
qed

theorem upload_chunk_limits_witness:
  "seller_upload_stocks [] [''A'']
     = Inr ([[\<lparr>offer_id = ''A'', stock = 0\<rparr>]], [], [\<lparr>offer_id = ''A'', stock = 0\<rparr>])
   \<and> length [\<lparr>offer_id = ''A'', stock = 0\<rparr>] \<le> 100
   \<and> (\<exists>sent not_empty stocks.
         seller_upload_stocks [] (replicate 250 ''A'') = Inr (sent, not_empty, stocks)
         \<and> map length sent = [100, 100, 50])"
proof -
  have a: "seller_upload_stocks [] [''A'']
     = Inr ([[\<lparr>offer_id = ''A'', stock = 0\<rparr>]], [], [\<lparr>offer_id = ''A'', stock = 0\<rparr>])"
    by (simp add: seller_upload_stocks_def seller_create_stocks_def divide_def divide_loop.simps)
  have b: "seller_upload_stocks [] (replicate 250 ''A'')
     = Inr (divide_loop (map (\<lambda>i. \<lparr>offer_id = i, stock = 0\<rparr>) (replicate 250 ''A'')) 100 0,
            [], map (\<lambda>i. \<lparr>offer_id = i, stock = 0\<rparr>) (replicate 250 ''A''))"
    by (simp add: seller_upload_stocks_def seller_create_stocks_def divide_def)
  have c: "map length (divide_loop (map (\<lambda>i. \<lparr>offer_id = i, stock = 0\<rparr>) (replicate 250 ''A'')) 100 0)
             = [100, 100, 50]"
    by (rule divide_loop_250) simp
  show ?thesis
    using upload_chunk_limits [of "[]" "[''A'']" "[[\<lparr>offer_id = ''A'', stock = 0\<rparr>]]" "[]"
        "[\<lparr>offer_id = ''A'', stock = 0\<rparr>]"] a b c
    by simp
qed

section \<open>Prices without digits\<close>

lemma int_of_str_error: "int_of_str s = Inl e \<Longrightarrow> e = ValueError"
  by (auto simp: int_of_str_def long_from_string_def Let_def
      split: option.splits prod.splits if_splits)

lemma int_of_str_empty: "int_of_str [] = Inl ValueError"
  by (simp add: int_of_str_def long_from_string_def strip_def nat_of_digits_def)

lemma seller_create_prices_returns:
  assumes "\<forall>v \<in> set feed. code_of v \<in> set ids \<longrightarrow> (\<exists>t. get v Tsena = PStr t)"
  shows "\<exists>prices. seller_create_prices feed ids = Inr prices"
  using assms
proof (induction feed)
  case Nil
  show ?case by simp
next
  case (Cons v rest)
  then obtain ps where r: "seller_create_prices rest ids = Inr ps" by auto
  show ?case
  proof (cases "code_of v \<in> set ids")
    case True
    with Cons.prems obtain t where "get v Tsena = PStr t" by auto
    with True r show ?thesis by (simp add: price_conversion_str)
  next
    case False
    with r show ?thesis by simp
  qed
qed

lemma seller_create_prices_entry:
  assumes "seller_create_prices feed ids = Inr prices"
    and "w \<in> set feed" and "code_of w \<in> set ids" and "get w Tsena = PStr s"
  shows "\<lparr>auto_action_enabled = ''UNKNOWN'', currency_code = ''RUB'',
          price_offer_id = code_of w, old_price = ''0'',
          price = filter is_digit (takeWhile (\<lambda>c. c \<noteq> CHR ''.'') s)\<rparr> \<in> set prices"
  using assms
proof (induction feed arbitrary: prices)
  case Nil
  then show ?case by simp
next
  case (Cons v rest)
  show ?case
  proof (cases "code_of v \<in> set ids")
    case True
    with Cons.prems(1) obtain p ps where p: "price_conversion (get v Tsena) = Inr p"
      and r: "seller_create_prices rest ids = Inr ps"
      and e: "prices = \<lparr>auto_action_enabled = ''UNKNOWN'', currency_code = ''RUB'',
                price_offer_id = code_of v, old_price = ''0'', price = p\<rparr> # ps"
      by (auto split: sum.splits)
    show ?thesis
    proof (cases "w = v")
      case True
      with p Cons.prems(4) e show ?thesis by (simp add: price_conversion_str)
    next
      case False
      with Cons.prems have "w \<in> set rest" by simp
      from Cons.IH [OF r this Cons.prems(3) Cons.prems(4)] e show ?thesis by simp
    qed
  next
    case False
    with Cons.prems have r: "seller_create_prices rest ids = Inr prices" and "w \<in> set rest"
      by auto
    from Cons.IH [OF r this(2) Cons.prems(3) Cons.prems(4)] show ?thesis .
  qed
qed

lemma market_create_prices_error:
  assumes "\<forall>v \<in> set feed. code_of v \<in> set ids \<longrightarrow> (\<exists>t. get v Tsena = PStr t)"
    and "market_create_prices feed ids = Inl e"
  shows "e = ValueError"
  using assms
proof (induction feed)
  case Nil
  then show ?case by simp
next
  case (Cons v rest)
  show ?case
  proof (cases "code_of v \<in> set ids")
    case True
    with Cons.prems obtain t where t: "get v Tsena = PStr t" by auto
    show ?thesis
    proof (cases "int_of_str (filter is_digit (takeWhile (\<lambda>c. c \<noteq> CHR ''.'') t))")
      case (Inl e')
      with True t Cons.prems(2) have "e = e'" by (simp add: price_conversion_str)
      with int_of_str_error [OF Inl] show ?thesis by simp
    next
      case (Inr n)
      with True t Cons.prems(2) have "market_create_prices rest ids = Inl e"
        by (simp add: price_conversion_str split: sum.splits)
      with Cons show ?thesis by simp
    qed
  next
    case False
    with Cons show ?thesis by simp
  qed
qed

lemma market_create_prices_raises:
  assumes "w \<in> set feed" and "code_of w \<in> set ids" and "get w Tsena = PStr s"
    and "filter is_digit (takeWhile (\<lambda>c. c \<noteq> CHR ''.'') s) = []"
  shows "\<exists>e. market_create_prices feed ids = Inl e"
  using assms(1)
proof (induction feed)
  case Nil
  then show ?case by simp
next
  case (Cons v rest)
  show ?case
  proof (cases "w = v")
    case True
    with assms show ?thesis by (simp add: price_conversion_str int_of_str_empty)
  next
    case False
    with Cons obtain e where "market_create_prices rest ids = Inl e" by auto
    then show ?thesis by (simp split: sum.splits)
  qed
qed

text \<open>
  Claim C10. Let a row of the feed have its code among the identifiers and a price string
  with no digit before its first dot, and let the prices of all matched rows be strings.
  Then \<^verbatim>\<open>price_conversion\<close> gives the empty string for that row; the Ozon
  \<^verbatim>\<open>create_prices\<close> raises nothing and returns a list holding the row's entry with the
  price \<^verbatim>\<open>""\<close>; \<^verbatim>\<open>int("")\<close> raises \<^verbatim>\<open>ValueError\<close>, and the Yandex
  \<^verbatim>\<open>create_prices\<close> raises \<^verbatim>\<open>ValueError\<close> and returns nothing.
\<close>

theorem empty_price_ozon_emits_yandex_raises:
  assumes "w \<in> set feed" and "code_of w \<in> set ids" and "get w Tsena = PStr s"
    and "filter is_digit (takeWhile (\<lambda>c. c \<noteq> CHR ''.'') s) = []"
    and "\<forall>v \<in> set feed. code_of v \<in> set ids \<longrightarrow> (\<exists>t. get v Tsena = PStr t)"
  shows "price_conversion (get w Tsena) = Inr []
         \<and> (\<exists>prices. seller_create_prices feed ids = Inr prices
                \<and> \<lparr>auto_action_enabled = ''UNKNOWN'', currency_code = ''RUB'',
                    price_offer_id = code_of w, old_price = ''0'', price = []\<rparr> \<in> set prices)
         \<and> int_of_str [] = Inl ValueError
         \<and> market_create_prices feed ids = Inl ValueError"
proof -
  from seller_create_prices_returns [OF assms(5)]
  obtain prices where p: "seller_create_prices feed ids = Inr prices" by auto
  from seller_create_prices_entry [OF p assms(1) assms(2) assms(3)] assms(4)
  have m: "\<lparr>auto_action_enabled = ''UNKNOWN'', currency_code = ''RUB'',
            price_offer_id = code_of w, old_price = ''0'', price = []\<rparr> \<in> set prices"
    by simp
  from market_create_prices_raises [OF assms(1) assms(2) assms(3) assms(4)]
  obtain e where e: "market_create_prices feed ids = Inl e" by auto
  from market_create_prices_error [OF assms(5) e] e
  have y: "market_create_prices feed ids = Inl ValueError" by simp
  have c: "price_conversion (get w Tsena) = Inr []"
    using assms(3) assms(4) by (simp add: price_conversion_str)
  from p m y c int_of_str_empty show ?thesis by simp
qed

theorem empty_price_ozon_emits_yandex_raises_witness:
  "seller_create_prices [row (PStr ''A'') (PStr ''5'') (PStr ''invalid string'')] [''A'']
     = Inr [\<lparr>auto_action_enabled = ''UNKNOWN'', currency_code = ''RUB'',
             price_offer_id = ''A'', old_price = ''0'', price = []\<rparr>]
   \<and> market_create_prices [row (PStr ''A'') (PStr ''5'') (PStr ''invalid string'')] [''A'']
     = Inl ValueError"
  using empty_price_ozon_emits_yandex_raises
    [of "row (PStr ''A'') (PStr ''5'') (PStr ''invalid string'')"
        "[row (PStr ''A'') (PStr ''5'') (PStr ''invalid string'')]" "[''A'']" "''invalid string''"]
  by (simp add: is_digit_def price_conversion_str)

end
